theory Spec2Isabelle
  imports Main "HOL-Library.Sublist"
begin

section \<open>Python strings\<close>

text \<open>
  The script \<^verbatim>\<open>wotd.py\<close> works on Python \<^verbatim>\<open>str\<close> values. They are modelled as
  \<^typ>\<open>string\<close>, one \<^typ>\<open>char\<close> per code point, which covers the code points
  0 to 255 (Latin-1). The character classes below are those of CPython on that range:
  \<^verbatim>\<open>\s\<close> and \<^verbatim>\<open>str.strip()\<close> use \<^verbatim>\<open>Py_UNICODE_ISSPACE\<close>, \<^verbatim>\<open>\d\<close> uses
  \<^verbatim>\<open>Py_UNICODE_ISDECIMAL\<close>, \<^verbatim>\<open>str.lower()\<close> the Unicode lower-case mapping.
\<close>

definition is_space :: "char \<Rightarrow> bool" where
  "is_space c =
     (let n = (of_char c :: nat)
      in (9 \<le> n \<and> n \<le> 13) \<or> (28 \<le> n \<and> n \<le> 32) \<or> n = 133 \<or> n = 160)"

definition is_digit :: "char \<Rightarrow> bool" where
  "is_digit c = (let n = (of_char c :: nat) in 48 \<le> n \<and> n \<le> 57)"

definition lower_char :: "char \<Rightarrow> char" where
  "lower_char c =
     (let n = (of_char c :: nat)
      in if (65 \<le> n \<and> n \<le> 90) \<or> (192 \<le> n \<and> n \<le> 222 \<and> n \<noteq> 215)
         then char_of (n + 32) else c)"

text \<open>\<^verbatim>\<open>s.lower()\<close>\<close>

definition lower :: "string \<Rightarrow> string" where
  "lower s = map lower_char s"



text \<open>\<^verbatim>\<open>s.strip()\<close>: leading and trailing whitespace removed.\<close>

definition strip :: "string \<Rightarrow> string" where
  "strip s = rev (dropWhile is_space (rev (dropWhile is_space s)))"

text \<open>\<^verbatim>\<open>needle in hay\<close> on strings: \<^verbatim>\<open>needle\<close> occurs in \<^verbatim>\<open>hay\<close> as a contiguous run.\<close>

fun py_in :: "string \<Rightarrow> string \<Rightarrow> bool" where
  "py_in needle [] = (needle = [])"
| "py_in needle (c # cs) = (prefix needle (c # cs) \<or> py_in needle cs)"

text \<open>\<^verbatim>\<open>str(n)\<close> and the \<^verbatim>\<open>{n}\<close> of an f-string, for an integer \<^verbatim>\<open>n\<close>.\<close>

definition digit_char :: "nat \<Rightarrow> char" where
  "digit_char n = char_of (48 + n)"

fun str_nat :: "nat \<Rightarrow> string" where
  "str_nat n = (if n < 10 then [digit_char n] else str_nat (n div 10) @ [digit_char (n mod 10)])"

declare str_nat.simps [simp del]

definition str_int :: "int \<Rightarrow> string" where
  "str_int i = (if i < 0 then CHR ''-'' # str_nat (nat (- i)) else str_nat (nat i))"

section \<open>The section splitter: \<^verbatim>\<open>re.split(r'==\s*(\d+)\s*==', wikitext)\<close>\<close>

text \<open>
  \<open>match_heading s\<close> is \<^verbatim>\<open>re.match\<close> of the pattern at the start of \<open>s\<close>: the captured
  digits and the text after the match. The three starred items are greedy; since
  whitespace, digits and \<^verbatim>\<open>=\<close> are disjoint classes, giving back a character never
  helps, so the greedy choice decides the match (lemma \<open>match_heading_iff\<close>).
\<close>

definition match_heading :: "string \<Rightarrow> (string \<times> string) option" where
  "match_heading s =
     (case s of
        a # b # r \<Rightarrow>
          if a = CHR ''='' \<and> b = CHR ''='' then
            (let r1 = dropWhile is_space r;
                 d = takeWhile is_digit r1;
                 r2 = dropWhile is_space (dropWhile is_digit r1)
             in if d = [] then None
                else (case r2 of
                        a' # b' # r3 \<Rightarrow>
                          if a' = CHR ''='' \<and> b' = CHR ''='' then Some (d, r3) else None
                      | _ \<Rightarrow> None))
          else None
      | _ \<Rightarrow> None)"

text \<open>
  \<open>find_heading s\<close> is \<^verbatim>\<open>re.search\<close>: the leftmost position where the pattern matches,
  as (text before the match, captured digits, text after the match).
\<close>

fun find_heading :: "string \<Rightarrow> (string \<times> string \<times> string) option" where
  "find_heading [] = None"
| "find_heading (c # cs) =
     (case match_heading (c # cs) of
        Some (d, rest) \<Rightarrow> Some ([], d, rest)
      | None \<Rightarrow>
          (case find_heading cs of
             None \<Rightarrow> None
           | Some (pre, d, rest) \<Rightarrow> Some (c # pre, d, rest)))"

text \<open>
  \<^verbatim>\<open>re.split\<close> with one capture group: the text before the first match, then for each
  match, left to right and without overlap, the captured group followed by the text up
  to the next match (or to the end).
\<close>

function re_split :: "string \<Rightarrow> string list" where
  "re_split s =
     (case find_heading s of
        None \<Rightarrow> [s]
      | Some (pre, d, rest) \<Rightarrow> pre # d # re_split rest)"
  by pat_completeness auto

termination
proof -
  have match_heading_shorter:
    "length rest < length s" if "match_heading s = Some (d, rest)" for s d rest
  proof -
    have drop_le: "\<And>P (xs :: string). length (dropWhile P xs) \<le> length xs"
      by (simp add: length_dropWhile_le)
    from that obtain r where s: "s = CHR ''='' # CHR ''='' # r"
      by (auto simp: match_heading_def split: list.splits if_splits)
    from that s have
      "dropWhile is_space (dropWhile is_digit (dropWhile is_space r))
         = CHR ''='' # CHR ''='' # rest"
      by (auto simp: match_heading_def Let_def split: list.splits if_splits)
    then have "length rest + 2 =
        length (dropWhile is_space (dropWhile is_digit (dropWhile is_space r)))"
      by simp
    also have "\<dots> \<le> length (dropWhile is_digit (dropWhile is_space r))" by (rule drop_le)
    also have "\<dots> \<le> length (dropWhile is_space r)" by (rule drop_le)
    also have "\<dots> \<le> length r" by (rule drop_le)
    finally show ?thesis using s by simp
  qed
  have find_heading_shorter:
    "length rest < length s" if "find_heading s = Some (pre, d, rest)" for s pre d rest
    using that
  proof (induction s arbitrary: pre)
    case Nil
    then show ?case by simp
  next
    case (Cons c cs)
    show ?case
    proof (cases "match_heading (c # cs)")
      case None
      with Cons.prems obtain pre' where "find_heading cs = Some (pre', d, rest)"
        by (auto split: option.splits)
      from Cons.IH [OF this] show ?thesis by simp
    next
      case (Some m)
      with Cons.prems have "match_heading (c # cs) = Some (d, rest)"
        by (cases m) auto
      then show ?thesis by (rule match_heading_shorter)
    qed
  qed
  show ?thesis
    by (relation "measure length") (auto dest: find_heading_shorter)
qed

declare re_split.simps [simp del]

section \<open>The wiki backend\<close>

text \<open>
  The script reaches the wiki through pywikibot. The model keeps what the script can
  observe or change: for every existing page its text and its protection (the dict of
  \<^verbatim>\<open>Page.protection()\<close>, from protection type to level and expiry), the backend calls
  made so far, and the console lines written through \<^verbatim>\<open>pywikibot.output\<close>,
  \<^verbatim>\<open>pywikibot.warning\<close> and \<^verbatim>\<open>pywikibot.error\<close>.
\<close>

datatype error =
    PywikibotError string   \<comment> \<open>\<^verbatim>\<open>pywikibot.Error\<close>, with its reason\<close>
  | IndexError

datatype call =
    Exists string                                 \<comment> \<open>\<^verbatim>\<open>Page(site, title).exists()\<close>\<close>
  | GetText string                                \<comment> \<open>\<^verbatim>\<open>page.text\<close>\<close>
  | Save string string string                     \<comment> \<open>title, new text, summary\<close>
  | Protection string                             \<comment> \<open>\<^verbatim>\<open>page.protection()\<close>\<close>
  | Protect string "(string \<times> string) list" string  \<comment> \<open>title, protections, reason\<close>

datatype level = Output | Warning | Err

record page =
  page_text :: string
  protection :: "string \<rightharpoonup> string \<times> string"

record wiki =
  pages :: "string \<rightharpoonup> page"
  calls :: "call list"
  console :: "(level \<times> string) list"

text \<open>
  What the script cannot decide is given from outside: whether the \<open>n\<close>-th backend call
  raises \<^verbatim>\<open>pywikibot.Error\<close> (and with which reason), and the name of the worker thread
  that runs the \<open>i\<close>-th task of a month.
\<close>

record env =
  faults :: "nat \<Rightarrow> call \<Rightarrow> string option"
  thread_name :: "nat \<Rightarrow> string"

definition say :: "level \<Rightarrow> string \<Rightarrow> wiki \<Rightarrow> wiki" where
  "say l msg w = w\<lparr>console := console w @ [(l, msg)]\<rparr>"

text \<open>A backend call is recorded, then it raises or not.\<close>

definition invoke :: "env \<Rightarrow> call \<Rightarrow> wiki \<Rightarrow> string option \<times> wiki" where
  "invoke ev c w = (faults ev (length (calls w)) c, w\<lparr>calls := calls w @ [c]\<rparr>)"

definition page_exists :: "env \<Rightarrow> string \<Rightarrow> wiki \<Rightarrow> (error + bool) \<times> wiki" where
  "page_exists ev title w =
     (case invoke ev (Exists title) w of
        (Some r, w') \<Rightarrow> (Inl (PywikibotError r), w')
      | (None, w') \<Rightarrow> (Inr (pages w' title \<noteq> None), w'))"

definition page_get_text :: "env \<Rightarrow> string \<Rightarrow> wiki \<Rightarrow> (error + string) \<times> wiki" where
  "page_get_text ev title w =
     (case invoke ev (GetText title) w of
        (Some r, w') \<Rightarrow> (Inl (PywikibotError r), w')
      | (None, w') \<Rightarrow>
          (Inr (case pages w' title of None \<Rightarrow> [] | Some p \<Rightarrow> page_text p), w'))"

text \<open>A save that does not raise stores the text; a new page starts unprotected.\<close>

definition store_text :: "string \<Rightarrow> string \<Rightarrow> wiki \<Rightarrow> wiki" where
  "store_text title txt w =
     w\<lparr>pages := (pages w)(title \<mapsto>
          (case pages w title of
             None \<Rightarrow> \<lparr>page_text = txt, protection = Map.empty\<rparr>
           | Some p \<Rightarrow> p\<lparr>page_text := txt\<rparr>))\<rparr>"

definition page_save :: "env \<Rightarrow> string \<Rightarrow> string \<Rightarrow> string \<Rightarrow> wiki \<Rightarrow> (error + unit) \<times> wiki" where
  "page_save ev title txt summary w =
     (case invoke ev (Save title txt summary) w of
        (Some r, w') \<Rightarrow> (Inl (PywikibotError r), w')
      | (None, w') \<Rightarrow> (Inr (), store_text title txt w'))"

definition page_protection ::
  "env \<Rightarrow> string \<Rightarrow> wiki \<Rightarrow> (error + (string \<rightharpoonup> string \<times> string)) \<times> wiki" where
  "page_protection ev title w =
     (case invoke ev (Protection title) w of
        (Some r, w') \<Rightarrow> (Inl (PywikibotError r), w')
      | (None, w') \<Rightarrow>
          (Inr (case pages w' title of None \<Rightarrow> Map.empty | Some p \<Rightarrow> protection p), w'))"

text \<open>
  A protect call that does not raise sets each given protection type to its level, with
  no expiry; the protection of a page that does not exist is not recorded.
\<close>

fun set_levels ::
  "(string \<times> string) list \<Rightarrow> (string \<rightharpoonup> string \<times> string) \<Rightarrow> (string \<rightharpoonup> string \<times> string)" where
  "set_levels [] m = m"
| "set_levels ((k, l) # kls) m = set_levels kls (m(k \<mapsto> (l, ''infinity'')))"

definition store_levels :: "string \<Rightarrow> (string \<times> string) list \<Rightarrow> wiki \<Rightarrow> wiki" where
  "store_levels title protections w =
     (case pages w title of
        None \<Rightarrow> w
      | Some p \<Rightarrow>
          w\<lparr>pages := (pages w)(title \<mapsto>
               p\<lparr>protection := set_levels protections (protection p)\<rparr>)\<rparr>)"

definition page_protect ::
  "env \<Rightarrow> string \<Rightarrow> (string \<times> string) list \<Rightarrow> string \<Rightarrow> wiki \<Rightarrow> (error + unit) \<times> wiki" where
  "page_protect ev title protections reason w =
     (case invoke ev (Protect title protections reason) w of
        (Some r, w') \<Rightarrow> (Inl (PywikibotError r), w')
      | (None, w') \<Rightarrow> (Inr (), store_levels title protections w'))"

text \<open>The backend writes are the save and the protect calls.\<close>

fun is_write :: "call \<Rightarrow> bool" where
  "is_write (Save t x s) = True"
| "is_write (Protect t ps r) = True"
| "is_write c = False"

definition writes :: "wiki \<Rightarrow> call list" where
  "writes w = filter is_write (calls w)"

section \<open>The day processor: \<^verbatim>\<open>process_one_day\<close>\<close>

text \<open>The \<^verbatim>\<open>task_info\<close> dict; the site handle is the one site the script logs in to.\<close>

record task =
  year :: int
  month_name :: string
  day :: string
  content :: string
  site :: string
  dry_run :: bool
  create_summary :: string
  protect_reason :: string

abbreviation nl :: string where
  "nl \<equiv> [CHR 0x0A]"

text \<open>\<^verbatim>\<open>{e}\<close> in an f-string, for a caught exception \<^verbatim>\<open>e\<close>: its reason.\<close>

definition str_error :: "error \<Rightarrow> string" where
  "str_error e = (case e of PywikibotError r \<Rightarrow> r | IndexError \<Rightarrow> [])"

text \<open>Line 63: \<^verbatim>\<open>protections = {'edit': 'sysop', 'move': 'sysop'}\<close>.\<close>

definition sysop_protections :: "(string \<times> string) list" where
  "sysop_protections = [(''edit'', ''sysop''), (''move'', ''sysop'')]"

definition target_page_title :: "task \<Rightarrow> string" where
  "target_page_title t =
     ''Wiktionary:Word of the day/'' @ str_int (year t) @ ''/'' @ month_name t @ '' '' @ day t"

text \<open>
  Lines 58 to 75: the protection step. Both the protection query and the protect call
  are inside the \<^verbatim>\<open>try\<close>; \<^verbatim>\<open>current_protection.get('edit', (None,))[0]\<close> is the level
  of the edit protection, or \<^verbatim>\<open>None\<close>.
\<close>

definition protect_step :: "env \<Rightarrow> task \<Rightarrow> string \<Rightarrow> wiki \<Rightarrow> wiki" where
  "protect_step ev t title w =
     (if \<not> dry_run t then
        (case page_protection ev title w of
           (Inl e, w1) \<Rightarrow>
             say Err (''ERROR: Failed to protect page. Reason: ''
                      @ str_error e) w1
         | (Inr current_protection, w1) \<Rightarrow>
             if map_option fst (current_protection ''edit'') \<noteq> Some ''sysop'' then
               (case page_protect ev title sysop_protections
                       (protect_reason t) w1 of
                  (Inl e, w2) \<Rightarrow>
                    say Err (''ERROR: Failed to protect page. Reason: ''
                             @ str_error e) w2
                | (Inr u, w2) \<Rightarrow> say Output ''SUCCESS: Page has been protected.'' w2)
             else say Output ''INFO: Page is already correctly protected.'' w1)
      else say Output ''DRY RUN: Page would be checked and protected if necessary.'' w)"

text \<open>
  The whole function. An error of the existence check is outside every \<^verbatim>\<open>try\<close> and
  leaves the function (\<open>Inl\<close>); the second argument is
  \<^verbatim>\<open>threading.current_thread().name\<close>.
\<close>

definition process_one_day :: "env \<Rightarrow> string \<Rightarrow> task \<Rightarrow> wiki \<Rightarrow> (error + unit) \<times> wiki" where
  "process_one_day ev thread t w =
     (let target = target_page_title t;
          w1 = say Output (nl @ ''--- Day '' @ day t @ '' (Thread: '' @ thread @ '') ---'') w;
          w2 = say Output (''Target page: '' @ target) w1
      in case page_exists ev target w2 of
           (Inl e, w3) \<Rightarrow> (Inl e, w3)
         | (Inr ex, w3) \<Rightarrow>
             if \<not> ex then
               (let w4 = say Output (replicate 25 CHR ''-'')
                          (say Output (content t)
                            (say Output (replicate 25 CHR ''-'')
                              (say Output ''Content to be saved:'' w3)))
                in if \<not> dry_run t then
                     (case page_save ev target (content t) (create_summary t) w4 of
                        (Inl e, w5) \<Rightarrow>
                          (Inr (),
                           say Err (''ERROR: Failed to create page. Reason: ''
                                    @ str_error e) w5)
                      | (Inr u, w5) \<Rightarrow>
                          (Inr (),
                           protect_step ev t target
                             (say Output ''SUCCESS: New page created.'' w5)))
                   else (Inr (), protect_step ev t target w4))
             else
               (Inr (),
                protect_step ev t target
                  (say Output ''INFO: Page already exists, skipping creation.'' w3)))"

section \<open>The month orchestrator: \<^verbatim>\<open>run_wotd_processing_for_month\<close>\<close>

definition source_page_title :: "int \<Rightarrow> string \<Rightarrow> string" where
  "source_page_title y m = ''Wiktionary:Word of the day/Archive/'' @ str_int y @ ''/'' @ m"

definition mk_create_summary :: "int \<Rightarrow> string \<Rightarrow> string" where
  "mk_create_summary y m =
     ''Creating Word of the Day page from the '' @ m @ '' '' @ str_int y @ '' archive.''"

definition mk_archive_summary :: "int \<Rightarrow> string \<Rightarrow> string" where
  "mk_archive_summary y m = ''Archiving WOTD source page for '' @ m @ '' '' @ str_int y @ ''.''"

definition mk_task :: "string \<Rightarrow> int \<Rightarrow> string \<Rightarrow> bool \<Rightarrow> string \<Rightarrow> string \<Rightarrow> task" where
  "mk_task st y m dr d c =
     \<lparr>year = y, month_name = m, day = d, content = c, site = st, dry_run = dr,
      create_summary = mk_create_summary y m,
      protect_reason = ''Protecting created Word of the Day page.''\<rparr>"

text \<open>
  Lines 97 to 110, \<^verbatim>\<open>for i in range(1, len(sections), 2)\<close>: the argument is the list
  from index \<open>i\<close> on, so \<^verbatim>\<open>sections[i]\<close> and \<^verbatim>\<open>sections[i + 1]\<close> are its first two
  elements, and a missing \<^verbatim>\<open>sections[i + 1]\<close> raises \<^verbatim>\<open>IndexError\<close>. The result is
  \<^verbatim>\<open>tasks\<close> and \<^verbatim>\<open>was_section_skipped\<close>.
\<close>

fun section_loop ::
  "string \<Rightarrow> int \<Rightarrow> string \<Rightarrow> bool \<Rightarrow> string list \<Rightarrow> task list \<Rightarrow> bool \<Rightarrow> wiki
     \<Rightarrow> (error + task list \<times> bool) \<times> wiki" where
  "section_loop st y m dr [] tasks skipped w = (Inr (tasks, skipped), w)"
| "section_loop st y m dr [d] tasks skipped w = (Inl IndexError, w)"
| "section_loop st y m dr (d # c # rest) tasks skipped w =
     (let cont = strip c
      in if cont \<noteq> [] \<and> py_in ''{{wotd'' (lower cont) then
           section_loop st y m dr rest (tasks @ [mk_task st y m dr d cont]) skipped w
         else if cont \<noteq> [] then
           section_loop st y m dr rest tasks True
             (say Warning (''Skipping section for day '' @ d
                           @ '' as it does not contain a WOTD template.'') w)
         else section_loop st y m dr rest tasks skipped w)"

text \<open>
  Lines 123 and 124: one worker per task. The tasks are run one after the other, in the
  order of submission; the iterator that \<^verbatim>\<open>executor.map\<close> returns is never read, so an
  exception that leaves a worker is dropped, and leaving the \<^verbatim>\<open>with\<close> block waits for
  every worker.
\<close>

fun dispatch :: "env \<Rightarrow> nat \<Rightarrow> task list \<Rightarrow> wiki \<Rightarrow> wiki" where
  "dispatch ev i [] w = w"
| "dispatch ev i (t # ts) w =
     dispatch ev (Suc i) ts (snd (process_one_day ev (thread_name ev i) t w))"

definition new_content :: "int \<Rightarrow> string" where
  "new_content y = ''{{WOTD month archive|'' @ str_int y @ ''|{{SUBPAGENAME}}}}''"

text \<open>Lines 129 to 147: the archive step.\<close>

definition archive_step ::
  "env \<Rightarrow> int \<Rightarrow> string \<Rightarrow> bool \<Rightarrow> bool \<Rightarrow> wiki \<Rightarrow> wiki" where
  "archive_step ev y m dr was_section_skipped w =
     (if was_section_skipped then
        say Err (nl @ ''Source page for '' @ m @ '' '' @ str_int y
                 @ '' will NOT be archived because one or more sections were invalid.'') w
      else if \<not> dr then
        (case page_save ev (source_page_title y m) (new_content y) (mk_archive_summary y m) w of
           (Inl e, w1) \<Rightarrow>
             say Err (''Could not update source page for '' @ m @ '' '' @ str_int y
                      @ ''. Reason: '' @ str_error e) w1
         | (Inr u, w1) \<Rightarrow>
             say Output (''SUCCESS: Source page for '' @ m @ '' '' @ str_int y
                         @ '' has been archived.'') w1)
      else
        say Output (nl @ ''DRY RUN: All sections valid. Would replace content of ''
                    @ [CHR 0x27] @ source_page_title y m @ [CHR 0x27] @ '' with: ''
                    @ new_content y) w)"

definition run_wotd_processing_for_month ::
  "env \<Rightarrow> string \<Rightarrow> int \<Rightarrow> string \<Rightarrow> bool \<Rightarrow> wiki \<Rightarrow> (error + unit) \<times> wiki" where
  "run_wotd_processing_for_month ev st y m dr w =
     (let src = source_page_title y m
      in case page_exists ev src w of
           (Inl e, w1) \<Rightarrow> (Inl e, w1)
         | (Inr ex, w1) \<Rightarrow>
             if \<not> ex then
               (Inr (), say Err (''Source page '' @ [CHR 0x27] @ src @ [CHR 0x27]
                                 @ '' does not exist. Skipping month.'') w1)
             else
               (case page_get_text ev src w1 of
                  (Inl e, w2) \<Rightarrow> (Inl e, w2)
                | (Inr wikitext, w2) \<Rightarrow>
                    (case section_loop st y m dr (drop 1 (re_split wikitext)) [] False w2 of
                       (Inl e, w3) \<Rightarrow> (Inl e, w3)
                     | (Inr (tasks, was_section_skipped), w3) \<Rightarrow>
                         if tasks = [] then
                           (Inr (), say Warning (''No valid WOTD sections found in '' @ [CHR 0x27]
                                                 @ src @ [CHR 0x27] @ ''. Skipping.'') w3)
                         else
                           (let num_workers = str_nat (length tasks);
                                w4 = say Output (nl @ ''Starting processing for '' @ num_workers
                                       @ '' days in '' @ m @ '' '' @ str_int y @ '' using ''
                                       @ num_workers @ '' threads...'') w3;
                                w5 = dispatch ev 0 tasks w4;
                                w6 = say Output (nl @ ''Concurrent tasks complete for '' @ m
                                       @ '' '' @ str_int y @ ''.'') w5
                            in (Inr (), archive_step ev y m dr was_section_skipped w6)))))"

section \<open>The calendar driver: \<^verbatim>\<open>main\<close>\<close>

definition DEFAULT_DRY_RUN :: bool where
  "DEFAULT_DRY_RUN = False"

text \<open>Lines 151 to 157: the flag that \<^verbatim>\<open>main\<close> passes on, and the line it prints.\<close>

definition is_dry_run :: "string list \<Rightarrow> bool" where
  "is_dry_run argv = (if ''-live'' \<in> set argv then False else DEFAULT_DRY_RUN)"

definition mode_banner :: "string list \<Rightarrow> string" where
  "mode_banner argv =
     (if ''-live'' \<in> set argv
      then nl @ ''*** LIVE MODE: Edits will be saved to Wiktionary! ***'' @ nl
      else nl @ ''*** DRY RUN MODE: No edits will be made. Use -live argument to save. ***'' @ nl)"




text \<open>
  The state of \<^verbatim>\<open>main\<close>'s loops: the (year, month) pairs for which
  \<^verbatim>\<open>run_wotd_processing_for_month\<close> has been called, in the order of the calls, and the
  wiki.
\<close>

type_synonym run = "(int \<times> int) list \<times> wiki"





section \<open>The splitter's pairs and their validity, as the specification words them\<close>

text \<open>
  Case-insensitive containment of the marker \<^verbatim>\<open>{{wotd\<close>: some six consecutive characters
  of the text equal the marker when both are lower-cased.
\<close>

definition has_marker :: "string \<Rightarrow> bool" where
  "has_marker s = (\<exists>i \<in> set [0..<Suc (length s)]. lower (take 6 (drop i s)) = lower ''{{wotd'')"

text \<open>
  A content is valid when it is non-empty and has the marker; it is invalid when it is
  non-empty and lacks it. An empty content is neither.
\<close>

definition valid :: "string \<Rightarrow> bool" where
  "valid c = (c \<noteq> [] \<and> has_marker c)"

definition invalid :: "string \<Rightarrow> bool" where
  "invalid c = (c \<noteq> [] \<and> \<not> has_marker c)"

text \<open>The (day-number, trimmed content) pairs of a month text, in order.\<close>

fun pairs_of :: "string list \<Rightarrow> (string \<times> string) list" where
  "pairs_of (d # c # rest) = (d, strip c) # pairs_of rest"
| "pairs_of secs = []"

definition split_pairs :: "string \<Rightarrow> (string \<times> string) list" where
  "split_pairs wikitext = pairs_of (drop 1 (re_split wikitext))"

definition skip_warning :: "string \<Rightarrow> level \<times> string" where
  "skip_warning d =
     (Warning, ''Skipping section for day '' @ d @ '' as it does not contain a WOTD template.'')"

text \<open>What the idempotence claim reads off the wiki: whether a page exists, and the level
  of its edit protection.\<close>

definition exists_in :: "wiki \<Rightarrow> string \<Rightarrow> bool" where
  "exists_in w title = (pages w title \<noteq> None)"

definition edit_level :: "wiki \<Rightarrow> string \<Rightarrow> string option" where
  "edit_level w title =
     (case pages w title of None \<Rightarrow> None | Some p \<Rightarrow> map_option fst (protection p ''edit''))"

text \<open>
  The month orchestrator in the specification's terms: the tasks of a month text (one per
  valid pair, in order), whether it has an invalid pair, the warnings for its invalid
  pairs, the backend calls a task can make, and the existence checks among calls.
\<close>

definition month_tasks :: "string \<Rightarrow> int \<Rightarrow> string \<Rightarrow> bool \<Rightarrow> string \<Rightarrow> task list" where
  "month_tasks st y m dr wikitext =
     map (\<lambda>(d, c). mk_task st y m dr d c) (filter (\<lambda>(d, c). valid c) (split_pairs wikitext))"

definition has_invalid :: "string \<Rightarrow> bool" where
  "has_invalid wikitext = (\<exists>(d, c) \<in> set (split_pairs wikitext). invalid c)"

definition skip_warnings :: "string \<Rightarrow> (level \<times> string) list" where
  "skip_warnings wikitext =
     map (\<lambda>(d, c). skip_warning d) (filter (\<lambda>(d, c). invalid c) (split_pairs wikitext))"

definition day_calls :: "task \<Rightarrow> call set" where
  "day_calls t =
     {Exists (target_page_title t),
      Save (target_page_title t) (content t) (create_summary t),
      Protection (target_page_title t),
      Protect (target_page_title t) sysop_protections (protect_reason t)}"

fun is_exists :: "call \<Rightarrow> bool" where
  "is_exists (Exists t) = True"
| "is_exists c = False"

text \<open>
  The archive gate: whether a month text has a valid pair, the save that archives the
  source page, and the backend calls made between two states.
\<close>

definition has_valid :: "string \<Rightarrow> bool" where
  "has_valid wikitext = (\<exists>(d, c) \<in> set (split_pairs wikitext). valid c)"

definition all_valid :: "string \<Rightarrow> bool" where
  "all_valid wikitext = (\<forall>(d, c) \<in> set (split_pairs wikitext). valid c)"

definition archive_save :: "int \<Rightarrow> string \<Rightarrow> call" where
  "archive_save y m = Save (source_page_title y m) (new_content y) (mk_archive_summary y m)"

definition new_calls :: "wiki \<Rightarrow> wiki \<Rightarrow> call list" where
  "new_calls w w' = drop (length (calls w)) (calls w')"

text \<open>
  \<open>heading_for d wikitext\<close>: the month text has a level-2 heading whose numeral is
  written \<open>d\<close>, that is \<^verbatim>\<open>==\<close>, whitespace, \<open>d\<close>, whitespace, \<^verbatim>\<open>==\<close>.
\<close>

definition heading_for :: "string \<Rightarrow> string \<Rightarrow> bool" where
  "heading_for d wikitext =
     (\<exists>u ws1 ws2 v. wikitext = u @ ''=='' @ ws1 @ d @ ws2 @ ''=='' @ v
        \<and> (\<forall>c \<in> set ws1. is_space c) \<and> (\<forall>c \<in> set ws2. is_space c))"

text \<open>
  The calendar driver in the specification's terms: \<open>later a b\<close>, the (year, month) pair
  \<open>a\<close> is strictly after \<open>b\<close>; \<open>in_range\<close>, a pair of the closed configured range;
  \<open>reads_never_raise\<close>, no existence check and no read of a page text raises. The months
  of the configured years, as the two loops of \<^verbatim>\<open>main\<close> enumerate them.
\<close>

definition later :: "int \<times> int \<Rightarrow> int \<times> int \<Rightarrow> bool" where
  "later a b = (fst a > fst b \<or> (fst a = fst b \<and> snd a > snd b))"





section \<open>The states of a run\<close>

text \<open>
  \<open>raised ev w w' c r\<close>: the step from \<open>w\<close> to \<open>w'\<close> made backend calls, the last of them
  was \<open>c\<close>, and it raised with reason \<open>r\<close>.
\<close>

definition raised :: "env \<Rightarrow> wiki \<Rightarrow> wiki \<Rightarrow> call \<Rightarrow> string \<Rightarrow> bool" where
  "raised ev w w' c r =
     (length (calls w) < length (calls w') \<and> last (calls w') = c
      \<and> faults ev (length (calls w') - 1) c = Some r)"

text \<open>
  The states on the way through \<open>process_one_day\<close>: after the two opening lines and the
  existence check; after the content has been shown; after a save that did not raise.
\<close>

definition announced :: "string \<Rightarrow> task \<Rightarrow> wiki \<Rightarrow> wiki" where
  "announced th t w =
     (say Output (''Target page: '' @ target_page_title t)
        (say Output (nl @ ''--- Day '' @ day t @ '' (Thread: '' @ th @ '') ---'') w))
     \<lparr>calls := calls w @ [Exists (target_page_title t)]\<rparr>"

definition shown :: "string \<Rightarrow> task \<Rightarrow> wiki \<Rightarrow> wiki" where
  "shown th t w =
     say Output (replicate 25 CHR ''-'')
       (say Output (content t)
         (say Output (replicate 25 CHR ''-'')
           (say Output ''Content to be saved:'' (announced th t w))))"

definition saved :: "string \<Rightarrow> task \<Rightarrow> wiki \<Rightarrow> wiki" where
  "saved th t w =
     say Output ''SUCCESS: New page created.''
       (store_text (target_page_title t) (content t)
          ((shown th t w)\<lparr>calls := calls w @ [Exists (target_page_title t),
               Save (target_page_title t) (content t) (create_summary t)]\<rparr>))"

definition found :: "string \<Rightarrow> task \<Rightarrow> wiki \<Rightarrow> wiki" where
  "found th t w = say Output ''INFO: Page already exists, skipping creation.'' (announced th t w)"

text \<open>
  The states on the way through \<open>run_wotd_processing_for_month\<close>: after the source page
  has been read and split, and after every task has been run.
\<close>

definition opened :: "int \<Rightarrow> string \<Rightarrow> string \<Rightarrow> wiki \<Rightarrow> wiki" where
  "opened y m wikitext w =
     w\<lparr>calls := calls w @ [Exists (source_page_title y m), GetText (source_page_title y m)],
       console := console w @ skip_warnings wikitext\<rparr>"

definition finished :: "env \<Rightarrow> string \<Rightarrow> int \<Rightarrow> string \<Rightarrow> bool \<Rightarrow> string \<Rightarrow> wiki \<Rightarrow> wiki" where
  "finished ev st y m dr wikitext w =
     say Output (nl @ ''Concurrent tasks complete for '' @ m @ '' '' @ str_int y @ ''.'')
       (dispatch ev 0 (month_tasks st y m dr wikitext)
          (say Output (nl @ ''Starting processing for ''
                       @ str_nat (length (month_tasks st y m dr wikitext))
                       @ '' days in '' @ m @ '' '' @ str_int y @ '' using ''
                       @ str_nat (length (month_tasks st y m dr wikitext)) @ '' threads...'')
             (opened y m wikitext w)))"

section \<open>Concrete inputs\<close>

definition no_faults :: env where
  "no_faults = \<lparr>faults = (\<lambda>n c. None), thread_name = (\<lambda>i. ''ThreadPoolExecutor-0_'' @ str_nat i)\<rparr>"

definition empty_wiki :: wiki where
  "empty_wiki = \<lparr>pages = Map.empty, calls = [], console = []\<rparr>"

definition month_text_1 :: string where
  "month_text_1 =
     ''==1=='' @ nl @ ''{{WotD|a}}'' @ nl @ ''== 2 =='' @ nl @ ''x'' @ nl @ ''==3=='' @ nl"

definition task_1 :: task where
  "task_1 = mk_task ''en'' 2006 ''January'' False ''1'' ''{{wotd|a}}''"


definition protect_fails :: env where
  "protect_fails =
     \<lparr>faults = (\<lambda>n c. case c of Protect t ps r \<Rightarrow> Some ''denied'' | _ \<Rightarrow> None),
      thread_name = (\<lambda>i. ''worker'')\<rparr>"


definition month_wiki :: "string \<Rightarrow> wiki" where
  "month_wiki x =
     \<lparr>pages = [source_page_title 2006 ''January''
                 \<mapsto> \<lparr>page_text = x, protection = Map.empty\<rparr>],
      calls = [], console = []\<rparr>"

definition month_text_2 :: string where
  "month_text_2 = ''==1=='' @ nl @ ''{{wotd|a}}'' @ nl @ ''==2=='' @ nl"


definition month_text_4 :: string where
  "month_text_4 = ''==01=='' @ nl @ ''{{wotd|a}}''"

section \<open>Properties of the splitter\<close>

lemma py_in_iff: "py_in needle hay = (\<exists>i \<le> length hay. prefix needle (drop i hay))"
proof (induction hay)
  case Nil
  then show ?case by simp
next
  case (Cons c cs)
  have "(\<exists>i \<le> length (c # cs). prefix needle (drop i (c # cs)))
        = (prefix needle (c # cs) \<or> (\<exists>i \<le> length cs. prefix needle (drop i cs)))"
  proof
    assume "\<exists>i \<le> length (c # cs). prefix needle (drop i (c # cs))"
    then obtain i where i: "i \<le> length (c # cs)" "prefix needle (drop i (c # cs))" by blast
    show "prefix needle (c # cs) \<or> (\<exists>i \<le> length cs. prefix needle (drop i cs))"
    proof (cases i)
      case 0
      with i show ?thesis by simp
    next
      case (Suc j)
      with i have "j \<le> length cs" "prefix needle (drop j cs)" by simp_all
      then show ?thesis by blast
    qed
  next
    assume "prefix needle (c # cs) \<or> (\<exists>i \<le> length cs. prefix needle (drop i cs))"
    then show "\<exists>i \<le> length (c # cs). prefix needle (drop i (c # cs))"
    proof
      assume "prefix needle (c # cs)"
      then have "0 \<le> length (c # cs) \<and> prefix needle (drop 0 (c # cs))" by simp
      then show ?thesis by blast
    next
      assume "\<exists>i \<le> length cs. prefix needle (drop i cs)"
      then obtain i where "i \<le> length cs" "prefix needle (drop i cs)" by blast
      then have "Suc i \<le> length (c # cs) \<and> prefix needle (drop (Suc i) (c # cs))" by simp
      then show ?thesis by blast
    qed
  qed
  with Cons show ?case by simp
qed

lemma prefix_take_eq: "prefix xs ys = (take (length xs) ys = xs)"
  by (metis append_eq_conv_conj prefix_def append_take_drop_id)

lemma lower_marker: "lower ''{{wotd'' = ''{{wotd''"
  by (simp add: lower_def lower_char_def)

lemma marker_test: "py_in ''{{wotd'' (lower s) = has_marker s"
proof -
  have len: "length ''{{wotd'' = 6" by simp
  have len_lower: "length (lower s) = length s" by (simp add: lower_def)
  have key: "\<And>i. prefix ''{{wotd'' (drop i (lower s)) = (lower (take 6 (drop i s)) = lower ''{{wotd'')"
    unfolding lower_marker prefix_take_eq len by (simp add: lower_def take_map drop_map)
  have "py_in ''{{wotd'' (lower s) = (\<exists>i \<le> length s. lower (take 6 (drop i s)) = lower ''{{wotd'')"
    unfolding py_in_iff key len_lower ..
  also have "\<dots> = has_marker s"
    unfolding has_marker_def set_upt by (auto simp: less_Suc_eq_le)
  finally show ?thesis .
qed

lemma section_loop_pairs:
  "even (length secs) \<Longrightarrow>
   section_loop st y m dr secs tasks skipped w =
     (Inr (tasks @ map (\<lambda>(d, c). mk_task st y m dr d c) (filter (\<lambda>(d, c). valid c) (pairs_of secs)),
           skipped \<or> (\<exists>(d, c) \<in> set (pairs_of secs). invalid c)),
      w\<lparr>console := console w @ map (\<lambda>(d, c). skip_warning d) (filter (\<lambda>(d, c). invalid c) (pairs_of secs))\<rparr>)"
proof (induction st y m dr secs tasks skipped w rule: section_loop.induct)
  case (1 st y m dr tasks skipped w)
  then show ?case by simp
next
  case (2 st y m dr d tasks skipped w)
  then show ?case by simp
next
  case (3 st y m dr d c rest tasks skipped w)
  from "3.prems" have ev: "even (length rest)" by simp
  show ?case
  proof (cases "strip c = []")
    case True
    with "3.IH"(3) [OF refl _ _ ev] show ?thesis
      by (simp add: valid_def invalid_def)
  next
    case ne: False
    show ?thesis
    proof (cases "has_marker (strip c)")
      case True
      with ne "3.IH"(1) [OF refl _ ev] show ?thesis
        by (simp add: valid_def invalid_def marker_test)
    next
      case False
      with ne "3.IH"(2) [OF refl _ _ ev] show ?thesis
        by (simp add: valid_def invalid_def marker_test say_def skip_warning_def)
    qed
  qed
qed

lemma re_split_odd: "odd (length (re_split s))"
proof (induction s rule: re_split.induct)
  case (1 s)
  show ?case
  proof (cases "find_heading s")
    case None
    then show ?thesis by (subst re_split.simps) simp
  next
    case (Some t)
    obtain pre d rest where t: "t = (pre, d, rest)" by (cases t) auto
    have fh: "find_heading s = Some (pre, d, rest)" using Some t by simp
    have "odd (length (re_split rest))" by (rule "1.IH" [OF fh refl refl])
    then show ?thesis by (subst re_split.simps) (simp add: fh)
  qed
qed

lemma sections_even: "even (length (drop 1 (re_split s)))"
  using re_split_odd [of s] by (cases "re_split s") simp_all

lemma space_not_digit: "is_space c \<Longrightarrow> \<not> is_digit c"
  by (auto simp: is_space_def is_digit_def Let_def)

lemma equals_sign: "\<not> is_space CHR ''=''" "\<not> is_digit CHR ''=''"
  by (simp_all add: is_space_def is_digit_def)

lemma match_heading_iff:
  "match_heading s = Some (d, rest) \<longleftrightarrow>
     (\<exists>ws1 ws2. s = ''=='' @ ws1 @ d @ ws2 @ ''=='' @ rest
        \<and> (\<forall>c \<in> set ws1. is_space c) \<and> (\<forall>c \<in> set ws2. is_space c)
        \<and> d \<noteq> [] \<and> (\<forall>c \<in> set d. is_digit c))"
proof
  assume m: "match_heading s = Some (d, rest)"
  then obtain r where s: "s = CHR ''='' # CHR ''='' # r"
    by (auto simp: match_heading_def split: list.splits if_splits)
  define r1 where "r1 = dropWhile is_space r"
  define r2 where "r2 = dropWhile is_digit r1"
  from m s have d: "d = takeWhile is_digit r1" "d \<noteq> []"
    and tail: "dropWhile is_space r2 = CHR ''='' # CHR ''='' # rest"
    by (auto simp: match_heading_def Let_def r1_def r2_def split: list.splits if_splits)
  have "r = takeWhile is_space r @ r1" by (simp add: r1_def)
  also have "r1 = d @ r2" by (simp add: d(1) r2_def)
  also have "r2 = takeWhile is_space r2 @ dropWhile is_space r2" by simp
  finally have "s = ''=='' @ takeWhile is_space r @ d @ takeWhile is_space r2 @ ''=='' @ rest"
    using s tail by simp
  moreover have "\<forall>c \<in> set (takeWhile is_space r). is_space c"
    "\<forall>c \<in> set (takeWhile is_space r2). is_space c" "\<forall>c \<in> set d. is_digit c"
    by (auto simp: d(1) dest: set_takeWhileD)
  ultimately show "\<exists>ws1 ws2. s = ''=='' @ ws1 @ d @ ws2 @ ''=='' @ rest
        \<and> (\<forall>c \<in> set ws1. is_space c) \<and> (\<forall>c \<in> set ws2. is_space c)
        \<and> d \<noteq> [] \<and> (\<forall>c \<in> set d. is_digit c)"
    using d(2) by blast
next
  assume "\<exists>ws1 ws2. s = ''=='' @ ws1 @ d @ ws2 @ ''=='' @ rest
        \<and> (\<forall>c \<in> set ws1. is_space c) \<and> (\<forall>c \<in> set ws2. is_space c)
        \<and> d \<noteq> [] \<and> (\<forall>c \<in> set d. is_digit c)"
  then obtain ws1 ws2 where s: "s = ''=='' @ ws1 @ d @ ws2 @ ''=='' @ rest"
    and ws1: "\<forall>c \<in> set ws1. is_space c" and ws2: "\<forall>c \<in> set ws2. is_space c"
    and d: "d \<noteq> []" "\<forall>c \<in> set d. is_digit c"
    by blast
  from d obtain c cs where dc: "d = c # cs" "is_digit c" by (cases d) auto
  then have "\<not> is_space c" using space_not_digit by blast
  have s': "s = CHR ''='' # CHR ''='' # ws1 @ d @ ws2 @ CHR ''='' # CHR ''='' # rest"
    using s by simp
  have r1: "dropWhile is_space (ws1 @ d @ ws2 @ CHR ''='' # CHR ''='' # rest)
              = d @ ws2 @ CHR ''='' # CHR ''='' # rest"
    using ws1 dc(1) \<open>\<not> is_space c\<close> by (simp add: dropWhile_append2)
  have stop: "takeWhile is_digit (ws2 @ CHR ''='' # CHR ''='' # rest) = []"
    using ws2 equals_sign(2) space_not_digit by (cases ws2) auto
  have td: "takeWhile is_digit (d @ ws2 @ CHR ''='' # CHR ''='' # rest) = d"
    using d(2) stop by (simp add: takeWhile_append2)
  have stop': "dropWhile is_digit (ws2 @ CHR ''='' # CHR ''='' # rest)
                 = ws2 @ CHR ''='' # CHR ''='' # rest"
    using ws2 equals_sign(2) space_not_digit by (cases ws2) auto
  have dd: "dropWhile is_digit (d @ ws2 @ CHR ''='' # CHR ''='' # rest)
              = ws2 @ CHR ''='' # CHR ''='' # rest"
    using d(2) stop' by (simp add: dropWhile_append2)
  have r3: "dropWhile is_space (ws2 @ CHR ''='' # CHR ''='' # rest)
              = CHR ''='' # CHR ''='' # rest"
    using ws2 equals_sign(1) by (simp add: dropWhile_append2)
  show "match_heading s = Some (d, rest)"
    unfolding s' match_heading_def using d(1) by (simp add: r1 td dd r3 Let_def)
qed

lemma find_heading_heading:
  "find_heading s = Some (pre, d, rest) \<Longrightarrow>
   \<exists>ws1 ws2. s = pre @ ''=='' @ ws1 @ d @ ws2 @ ''=='' @ rest
      \<and> (\<forall>c \<in> set ws1. is_space c) \<and> (\<forall>c \<in> set ws2. is_space c)
      \<and> d \<noteq> [] \<and> (\<forall>c \<in> set d. is_digit c)"
proof (induction s arbitrary: pre)
  case Nil
  then show ?case by simp
next
  case (Cons c cs)
  show ?case
  proof (cases "match_heading (c # cs)")
    case None
    with Cons.prems obtain pre' where pre': "find_heading cs = Some (pre', d, rest)"
      "pre = c # pre'"
      by (auto split: option.splits)
    from Cons.IH [OF pre'(1)] pre'(2) show ?thesis by auto
  next
    case (Some mt)
    with Cons.prems have "match_heading (c # cs) = Some (d, rest)" "pre = []"
      by (cases mt; auto)+
    then show ?thesis using match_heading_iff [of "c # cs" d rest] by simp
  qed
qed

lemma heading_for_suffix: "heading_for d v \<Longrightarrow> heading_for d (u @ v)"
  unfolding heading_for_def
proof -
  assume "\<exists>u' ws1 ws2 v'. v = u' @ ''=='' @ ws1 @ d @ ws2 @ ''=='' @ v'
        \<and> (\<forall>c \<in> set ws1. is_space c) \<and> (\<forall>c \<in> set ws2. is_space c)"
  then obtain u' ws1 ws2 v' where "v = u' @ ''=='' @ ws1 @ d @ ws2 @ ''=='' @ v'"
    "\<forall>c \<in> set ws1. is_space c" "\<forall>c \<in> set ws2. is_space c" by blast
  then have "u @ v = (u @ u') @ ''=='' @ ws1 @ d @ ws2 @ ''=='' @ v'
        \<and> (\<forall>c \<in> set ws1. is_space c) \<and> (\<forall>c \<in> set ws2. is_space c)" by simp
  then show "\<exists>u' ws1 ws2 v'. u @ v = u' @ ''=='' @ ws1 @ d @ ws2 @ ''=='' @ v'
        \<and> (\<forall>c \<in> set ws1. is_space c) \<and> (\<forall>c \<in> set ws2. is_space c)" by blast
qed

lemma split_pairs_days:
  "(d, c) \<in> set (split_pairs s) \<Longrightarrow>
   d \<noteq> [] \<and> (\<forall>ch \<in> set d. is_digit ch) \<and> heading_for d s"
proof (induction s rule: re_split.induct)
  case (1 s)
  show ?case
  proof (cases "find_heading s")
    case None
    then have "re_split s = [s]" by (subst re_split.simps) simp
    with "1.prems" show ?thesis by (simp add: split_pairs_def)
  next
    case (Some ft)
    obtain pre d' rest where ft: "ft = (pre, d', rest)" by (cases ft) auto
    have fh: "find_heading s = Some (pre, d', rest)" using Some ft by simp
    have split: "re_split s = pre # d' # re_split rest"
      by (subst re_split.simps) (simp add: fh)
    obtain c' more where rs: "re_split rest = c' # more"
      using re_split_odd [of rest] by (cases "re_split rest") auto
    from find_heading_heading [OF fh] obtain ws1 ws2 where
      s: "s = pre @ ''=='' @ ws1 @ d' @ ws2 @ ''=='' @ rest"
      and ws: "\<forall>c \<in> set ws1. is_space c" "\<forall>c \<in> set ws2. is_space c"
      and d': "d' \<noteq> []" "\<forall>c \<in> set d'. is_digit c"
      by blast
    have here: "heading_for d' s"
      unfolding heading_for_def using s ws by blast
    from "1.prems" split rs
    have "(d, c) = (d', strip c') \<or> (d, c) \<in> set (split_pairs rest)"
      by (simp add: split_pairs_def)
    then show ?thesis
    proof
      assume "(d, c) = (d', strip c')"
      with d' here show ?thesis by simp
    next
      assume "(d, c) \<in> set (split_pairs rest)"
      from "1.IH" [OF fh refl refl this]
      have "d \<noteq> [] \<and> (\<forall>ch \<in> set d. is_digit ch) \<and> heading_for d rest" .
      moreover have "s = (pre @ ''=='' @ ws1 @ d' @ ws2 @ ''=='') @ rest" using s by simp
      ultimately show ?thesis using heading_for_suffix [of d rest] by metis
    qed
  qed
qed

section \<open>Properties of the day processor\<close>

lemma say_simps [simp]:
  "calls (say l msg w) = calls w"
  "pages (say l msg w) = pages w"
  "console (say l msg w) = console w @ [(l, msg)]"
  "writes (say l msg w) = writes w"
  by (simp_all add: say_def writes_def)

lemma store_text_simps [simp]:
  "calls (store_text title x w) = calls w"
  "console (store_text title x w) = console w"
  "writes (store_text title x w) = writes w"
  by (simp_all add: store_text_def writes_def)

lemma store_levels_simps [simp]:
  "calls (store_levels title ps w) = calls w"
  "console (store_levels title ps w) = console w"
  "writes (store_levels title ps w) = writes w"
  by (simp_all add: store_levels_def writes_def split: option.split)

lemma page_exists_cases:
  "page_exists ev title w =
     (case faults ev (length (calls w)) (Exists title) of
        Some r \<Rightarrow> Inl (PywikibotError r)
      | None \<Rightarrow> Inr (pages w title \<noteq> None),
      w\<lparr>calls := calls w @ [Exists title]\<rparr>)"
  by (simp add: page_exists_def invoke_def split: option.split)

lemma page_protection_cases:
  "page_protection ev title w =
     (case faults ev (length (calls w)) (Protection title) of
        Some r \<Rightarrow> Inl (PywikibotError r)
      | None \<Rightarrow> Inr (case pages w title of None \<Rightarrow> Map.empty | Some p \<Rightarrow> protection p),
      w\<lparr>calls := calls w @ [Protection title]\<rparr>)"
  by (simp add: page_protection_def invoke_def split: option.split)

lemma protect_step_dry:
  "dry_run t \<Longrightarrow>
   protect_step ev t title w =
     say Output ''DRY RUN: Page would be checked and protected if necessary.'' w"
  by (simp add: protect_step_def)

lemma process_one_day_dry:
  assumes "dry_run t"
  shows "writes (snd (process_one_day ev th t w)) = writes w"
    and "pages (snd (process_one_day ev th t w)) = pages w"
  using assms
  by (simp_all add: process_one_day_def page_exists_cases protect_step_dry Let_def writes_def
        split: option.split)

lemma page_save_cases:
  "page_save ev title x s w =
     (case faults ev (length (calls w)) (Save title x s) of
        Some r \<Rightarrow> (Inl (PywikibotError r), w\<lparr>calls := calls w @ [Save title x s]\<rparr>)
      | None \<Rightarrow> (Inr (), store_text title x (w\<lparr>calls := calls w @ [Save title x s]\<rparr>)))"
  by (simp add: page_save_def invoke_def split: option.split)

lemma page_protect_cases:
  "page_protect ev title ps rs w =
     (case faults ev (length (calls w)) (Protect title ps rs) of
        Some r \<Rightarrow> (Inl (PywikibotError r), w\<lparr>calls := calls w @ [Protect title ps rs]\<rparr>)
      | None \<Rightarrow> (Inr (), store_levels title ps (w\<lparr>calls := calls w @ [Protect title ps rs]\<rparr>)))"
  by (simp add: page_protect_def invoke_def split: option.split)

lemma str_error_simp [simp]: "str_error (PywikibotError r) = r"
  by (simp add: str_error_def)

lemma protect_step_cases [case_names dry query_failed already protect_failed protected]:
  obtains
    "dry_run t"
    "protect_step ev t title w
       = say Output ''DRY RUN: Page would be checked and protected if necessary.'' w"
  | r where
    "\<not> dry_run t"
    "faults ev (length (calls w)) (Protection title) = Some r"
    "protect_step ev t title w
       = say Err (''ERROR: Failed to protect page. Reason: '' @ r)
           (w\<lparr>calls := calls w @ [Protection title]\<rparr>)"
  | "\<not> dry_run t"
    "faults ev (length (calls w)) (Protection title) = None"
    "protect_step ev t title w
       = say Output ''INFO: Page is already correctly protected.''
           (w\<lparr>calls := calls w @ [Protection title]\<rparr>)"
  | r where
    "\<not> dry_run t"
    "faults ev (length (calls w)) (Protection title) = None"
    "faults ev (Suc (length (calls w))) (Protect title sysop_protections (protect_reason t))
       = Some r"
    "protect_step ev t title w
       = say Err (''ERROR: Failed to protect page. Reason: '' @ r)
           (w\<lparr>calls := calls w @ [Protection title,
                                     Protect title sysop_protections (protect_reason t)]\<rparr>)"
  | "\<not> dry_run t"
    "faults ev (length (calls w)) (Protection title) = None"
    "faults ev (Suc (length (calls w))) (Protect title sysop_protections (protect_reason t))
       = None"
    "protect_step ev t title w
       = say Output ''SUCCESS: Page has been protected.''
           (store_levels title sysop_protections
              (w\<lparr>calls := calls w @ [Protection title,
                                        Protect title sysop_protections (protect_reason t)]\<rparr>))"
proof (cases "dry_run t")
  case True
  then show ?thesis using that(1) by (simp add: protect_step_def)
next
  case live: False
  show ?thesis
  proof (cases "faults ev (length (calls w)) (Protection title)")
    case (Some r)
    with live show ?thesis using that(2) [of r]
      by (simp add: protect_step_def page_protection_cases)
  next
    case ok: None
    show ?thesis
    proof (cases "map_option fst
                    ((case pages w title of None \<Rightarrow> Map.empty | Some p \<Rightarrow> protection p) ''edit'')
                  = Some ''sysop''")
      case True
      with live ok show ?thesis using that(3)
        by (simp add: protect_step_def page_protection_cases)
    next
      case unprotected: False
      show ?thesis
      proof (cases "faults ev (Suc (length (calls w)))
                      (Protect title sysop_protections (protect_reason t))")
        case (Some r)
        with live ok unprotected show ?thesis using that(4) [of r]
          by (simp add: protect_step_def page_protection_cases page_protect_cases)
      next
        case None
        with live ok unprotected show ?thesis using that(5)
          by (simp add: protect_step_def page_protection_cases page_protect_cases)
      qed
    qed
  qed
qed

lemma announced_simps [simp]:
  "calls (announced th t w) = calls w @ [Exists (target_page_title t)]"
  "pages (announced th t w) = pages w"
  by (simp_all add: announced_def)

lemma shown_simps [simp]:
  "calls (shown th t w) = calls w @ [Exists (target_page_title t)]"
  "pages (shown th t w) = pages w"
  by (simp_all add: shown_def)

lemma found_simps [simp]:
  "calls (found th t w) = calls w @ [Exists (target_page_title t)]"
  "pages (found th t w) = pages w"
  by (simp_all add: found_def)

lemma saved_simps [simp]:
  "calls (saved th t w) = calls w @ [Exists (target_page_title t),
     Save (target_page_title t) (content t) (create_summary t)]"
  by (simp_all add: saved_def)

lemma process_one_day_cases [case_names exists_failed existing dry_absent save_failed created]:
  obtains
    r where
    "faults ev (length (calls w)) (Exists (target_page_title t)) = Some r"
    "process_one_day ev th t w = (Inl (PywikibotError r), announced th t w)"
  | "faults ev (length (calls w)) (Exists (target_page_title t)) = None"
    "pages w (target_page_title t) \<noteq> None"
    "process_one_day ev th t w
       = (Inr (), protect_step ev t (target_page_title t) (found th t w))"
  | "faults ev (length (calls w)) (Exists (target_page_title t)) = None"
    "pages w (target_page_title t) = None"
    "dry_run t"
    "process_one_day ev th t w
       = (Inr (), protect_step ev t (target_page_title t) (shown th t w))"
  | r where
    "faults ev (length (calls w)) (Exists (target_page_title t)) = None"
    "pages w (target_page_title t) = None"
    "\<not> dry_run t"
    "faults ev (Suc (length (calls w)))
       (Save (target_page_title t) (content t) (create_summary t)) = Some r"
    "process_one_day ev th t w
       = (Inr (),
          say Err (''ERROR: Failed to create page. Reason: '' @ r)
            ((shown th t w)\<lparr>calls := calls w @ [Exists (target_page_title t),
                Save (target_page_title t) (content t) (create_summary t)]\<rparr>))"
  | "faults ev (length (calls w)) (Exists (target_page_title t)) = None"
    "pages w (target_page_title t) = None"
    "\<not> dry_run t"
    "faults ev (Suc (length (calls w)))
       (Save (target_page_title t) (content t) (create_summary t)) = None"
    "process_one_day ev th t w
       = (Inr (), protect_step ev t (target_page_title t) (saved th t w))"
proof (cases "faults ev (length (calls w)) (Exists (target_page_title t))")
  case (Some r)
  then show ?thesis using that(1) [of r]
    by (simp add: process_one_day_def page_exists_cases announced_def Let_def)
next
  case ok: None
  show ?thesis
  proof (cases "pages w (target_page_title t)")
    case (Some p)
    with ok show ?thesis using that(2)
      by (simp add: process_one_day_def page_exists_cases announced_def found_def Let_def)
  next
    case absent: None
    show ?thesis
    proof (cases "dry_run t")
      case True
      with ok absent show ?thesis using that(3)
        by (simp add: process_one_day_def page_exists_cases announced_def shown_def Let_def)
    next
      case live: False
      show ?thesis
      proof (cases "faults ev (Suc (length (calls w)))
                      (Save (target_page_title t) (content t) (create_summary t))")
        case (Some r)
        with ok absent live show ?thesis using that(4) [of r]
          by (simp add: process_one_day_def page_exists_cases page_save_cases announced_def
                shown_def Let_def)
      next
        case None
        with ok absent live show ?thesis using that(5)
          by (simp add: process_one_day_def page_exists_cases page_save_cases announced_def
                shown_def saved_def Let_def)
      qed
    qed
  qed
qed



lemma protect_step_grows:
  "\<exists>xs. calls (protect_step ev t title w) = calls w @ xs
        \<and> set xs \<subseteq> {Protection title, Protect title sysop_protections (protect_reason t)}"
  by (cases rule: protect_step_cases [of t ev title w]) simp_all

lemma protect_step_last:
  assumes "calls w \<noteq> []"
  shows "last (calls (protect_step ev t title w))
           \<in> {last (calls w), Protection title,
              Protect title sysop_protections (protect_reason t)}"
  by (cases rule: protect_step_cases [of t ev title w]) (use assms in simp_all)

lemma protect_step_raised:
  assumes "raised ev w (protect_step ev t title w) c r"
  shows "(c = Protection title \<or> c = Protect title sysop_protections (protect_reason t))
         \<and> last (console (protect_step ev t title w))
             = (Err, ''ERROR: Failed to protect page. Reason: '' @ r)
         \<and> pages (protect_step ev t title w) = pages w"
  by (cases rule: protect_step_cases [of t ev title w])
     (use assms in \<open>auto simp: raised_def\<close>)



lemma process_one_day_protected_already:
  assumes "exists_in w (target_page_title t)"
      and "edit_level w (target_page_title t) = Some ''sysop''"
  shows "writes (snd (process_one_day ev th t w)) = writes w"
    and "pages (snd (process_one_day ev th t w)) = pages w"
  using assms
  by (auto simp: exists_in_def edit_level_def process_one_day_def page_exists_cases protect_step_def
        page_protection_cases Let_def writes_def split: option.split)


lemma fresh_page_run:
  assumes "faults ev (length (calls w)) (Exists (target_page_title t)) = None"
      and "pages w (target_page_title t) = None"
      and "\<not> dry_run t"
      and "faults ev (Suc (length (calls w)))
             (Save (target_page_title t) (content t) (create_summary t)) = None"
      and "faults ev (Suc (Suc (length (calls w)))) (Protection (target_page_title t)) = None"
  shows "process_one_day ev th t w =
           (Inr (),
            case faults ev (Suc (Suc (Suc (length (calls w)))))
                   (Protect (target_page_title t) sysop_protections (protect_reason t)) of
              Some r \<Rightarrow>
                say Err (''ERROR: Failed to protect page. Reason: '' @ r)
                  ((saved th t w)\<lparr>calls := calls (saved th t w)
                      @ [Protection (target_page_title t),
                         Protect (target_page_title t) sysop_protections (protect_reason t)]\<rparr>)
            | None \<Rightarrow>
                say Output ''SUCCESS: Page has been protected.''
                  (store_levels (target_page_title t) sysop_protections
                     ((saved th t w)\<lparr>calls := calls (saved th t w)
                         @ [Protection (target_page_title t),
                            Protect (target_page_title t) sysop_protections
                              (protect_reason t)]\<rparr>)))"
proof -
  have unprotected:
    "map_option fst
       ((case pages (saved th t w) (target_page_title t) of
           None \<Rightarrow> Map.empty | Some p \<Rightarrow> protection p) ''edit'') \<noteq> Some ''sysop''"
    using assms(2) by (simp add: saved_def store_text_def)
  have "process_one_day ev th t w
          = (Inr (), protect_step ev t (target_page_title t) (saved th t w))"
    using assms by (cases rule: process_one_day_cases [of ev w t th]) simp_all
  then show ?thesis
    using assms(3,5) unprotected
    by (simp add: protect_step_def page_protection_cases page_protect_cases
          split: option.split)
qed


lemma fresh_page_protected:
  assumes "faults ev (length (calls w)) (Exists (target_page_title t)) = None"
      and "pages w (target_page_title t) = None"
      and "\<not> dry_run t"
      and "faults ev (Suc (length (calls w)))
             (Save (target_page_title t) (content t) (create_summary t)) = None"
      and "faults ev (Suc (Suc (length (calls w)))) (Protection (target_page_title t)) = None"
      and "faults ev (Suc (Suc (Suc (length (calls w)))))
             (Protect (target_page_title t) sysop_protections (protect_reason t)) = None"
  shows "exists_in (snd (process_one_day ev th t w)) (target_page_title t)"
    and "edit_level (snd (process_one_day ev th t w)) (target_page_title t) = Some ''sysop''"
  using assms(6)
  by (simp_all add: fresh_page_run [OF assms(1-5)] exists_in_def edit_level_def saved_def
        store_levels_def store_text_def sysop_protections_def)

section \<open>Properties of the month orchestrator\<close>

lemma section_loop_month:
  "section_loop st y m dr (drop 1 (re_split wikitext)) [] False w =
     (Inr (month_tasks st y m dr wikitext, has_invalid wikitext),
      w\<lparr>console := console w @ skip_warnings wikitext\<rparr>)"
  unfolding split_pairs_def month_tasks_def has_invalid_def skip_warnings_def
  using section_loop_pairs [OF sections_even, of st y m dr wikitext "[]" False w] by simp

lemma process_one_day_calls:
  "\<exists>xs. calls (snd (process_one_day ev th t w)) = calls w @ Exists (target_page_title t) # xs
        \<and> set xs \<subseteq> day_calls t - {Exists (target_page_title t)}"
proof (cases rule: process_one_day_cases [of ev w t th])
  case (exists_failed r)
  then show ?thesis by simp
next
  case existing
  from protect_step_grows [of ev t "target_page_title t" "found th t w"] existing
  show ?thesis by (auto simp: day_calls_def)
next
  case dry_absent
  from protect_step_grows [of ev t "target_page_title t" "shown th t w"] dry_absent
  show ?thesis by (auto simp: day_calls_def)
next
  case (save_failed r)
  then show ?thesis by (simp add: day_calls_def)
next
  case created
  from protect_step_grows [of ev t "target_page_title t" "saved th t w"] created
  show ?thesis by (auto simp: day_calls_def)
qed

lemma dispatch_calls:
  "\<exists>xs. calls (dispatch ev i ts w) = calls w @ xs
        \<and> filter is_exists xs = map (\<lambda>t. Exists (target_page_title t)) ts
        \<and> set xs \<subseteq> (\<Union>t \<in> set ts. day_calls t)"
proof (induction ts arbitrary: i w)
  case Nil
  then show ?case by simp
next
  case (Cons t ts)
  obtain xs where xs:
    "calls (snd (process_one_day ev (thread_name ev i) t w))
       = calls w @ Exists (target_page_title t) # xs"
    "set xs \<subseteq> day_calls t - {Exists (target_page_title t)}"
    using process_one_day_calls by blast
  obtain ys where ys:
    "calls (dispatch ev (Suc i) ts (snd (process_one_day ev (thread_name ev i) t w)))
       = calls (snd (process_one_day ev (thread_name ev i) t w)) @ ys"
    "filter is_exists ys = map (\<lambda>t. Exists (target_page_title t)) ts"
    "set ys \<subseteq> (\<Union>t \<in> set ts. day_calls t)"
    using Cons.IH by blast
  have no_exists: "filter is_exists xs = []"
    using xs(2) by (auto simp: filter_empty_conv day_calls_def)
  have "calls (dispatch ev i (t # ts) w) = calls w @ (Exists (target_page_title t) # xs @ ys)"
    using xs(1) ys(1) by simp
  moreover have "filter is_exists (Exists (target_page_title t) # xs @ ys)
                   = map (\<lambda>t. Exists (target_page_title t)) (t # ts)"
    using no_exists ys(2) by simp
  moreover have "set (Exists (target_page_title t) # xs @ ys)
                   \<subseteq> (\<Union>t \<in> set (t # ts). day_calls t)"
    using xs(2) ys(3) by (auto simp: day_calls_def)
  ultimately show ?case by blast
qed

lemma dispatch_dry:
  assumes "\<forall>t \<in> set ts. dry_run t"
  shows "writes (dispatch ev i ts w) = writes w \<and> pages (dispatch ev i ts w) = pages w"
  using assms
  by (induction ts arbitrary: i w) (simp_all add: process_one_day_dry)

lemma page_get_text_cases:
  "page_get_text ev title w =
     (case faults ev (length (calls w)) (GetText title) of
        Some r \<Rightarrow> Inl (PywikibotError r)
      | None \<Rightarrow> Inr (case pages w title of None \<Rightarrow> [] | Some p \<Rightarrow> page_text p),
      w\<lparr>calls := calls w @ [GetText title]\<rparr>)"
  by (simp add: page_get_text_def invoke_def split: option.split)

lemma section_loop_month_Suc:
  "section_loop st y m dr (drop (Suc 0) (re_split wikitext)) [] False w =
     (Inr (month_tasks st y m dr wikitext, has_invalid wikitext),
      w\<lparr>console := console w @ skip_warnings wikitext\<rparr>)"
  using section_loop_month [of st y m dr wikitext w] by simp

lemma run_month_cases [case_names exists_failed missing read_failed no_tasks dispatched]:
  obtains
    r where
    "faults ev (length (calls w)) (Exists (source_page_title y m)) = Some r"
    "run_wotd_processing_for_month ev st y m dr w
       = (Inl (PywikibotError r), w\<lparr>calls := calls w @ [Exists (source_page_title y m)]\<rparr>)"
  | "faults ev (length (calls w)) (Exists (source_page_title y m)) = None"
    "pages w (source_page_title y m) = None"
    "run_wotd_processing_for_month ev st y m dr w
       = (Inr (),
          say Err (''Source page '' @ [CHR 0x27] @ source_page_title y m @ [CHR 0x27]
                   @ '' does not exist. Skipping month.'')
            (w\<lparr>calls := calls w @ [Exists (source_page_title y m)]\<rparr>))"
  | r p where
    "faults ev (length (calls w)) (Exists (source_page_title y m)) = None"
    "pages w (source_page_title y m) = Some p"
    "faults ev (Suc (length (calls w))) (GetText (source_page_title y m)) = Some r"
    "run_wotd_processing_for_month ev st y m dr w
       = (Inl (PywikibotError r),
          w\<lparr>calls := calls w @ [Exists (source_page_title y m),
                                  GetText (source_page_title y m)]\<rparr>)"
  | p where
    "faults ev (length (calls w)) (Exists (source_page_title y m)) = None"
    "pages w (source_page_title y m) = Some p"
    "faults ev (Suc (length (calls w))) (GetText (source_page_title y m)) = None"
    "month_tasks st y m dr (page_text p) = []"
    "run_wotd_processing_for_month ev st y m dr w
       = (Inr (),
          say Warning (''No valid WOTD sections found in '' @ [CHR 0x27]
                       @ source_page_title y m @ [CHR 0x27] @ ''. Skipping.'')
            (opened y m (page_text p) w))"
  | p where
    "faults ev (length (calls w)) (Exists (source_page_title y m)) = None"
    "pages w (source_page_title y m) = Some p"
    "faults ev (Suc (length (calls w))) (GetText (source_page_title y m)) = None"
    "month_tasks st y m dr (page_text p) \<noteq> []"
    "run_wotd_processing_for_month ev st y m dr w
       = (Inr (),
          archive_step ev y m dr (has_invalid (page_text p))
            (finished ev st y m dr (page_text p) w))"
proof (cases "faults ev (length (calls w)) (Exists (source_page_title y m))")
  case (Some r)
  then show ?thesis using that(1) [of r]
    by (simp add: run_wotd_processing_for_month_def page_exists_cases Let_def)
next
  case ok: None
  show ?thesis
  proof (cases "pages w (source_page_title y m)")
    case None
    with ok show ?thesis using that(2)
      by (simp add: run_wotd_processing_for_month_def page_exists_cases Let_def)
  next
    case (Some p)
    show ?thesis
    proof (cases "faults ev (Suc (length (calls w))) (GetText (source_page_title y m))")
      case failed: (Some r)
      with ok Some show ?thesis using that(3) [of p r]
        by (simp add: run_wotd_processing_for_month_def page_exists_cases page_get_text_cases
              Let_def)
    next
      case read: None
      show ?thesis
      proof (cases "month_tasks st y m dr (page_text p) = []")
        case True
        with ok Some read show ?thesis using that(4) [of p]
          by (simp add: run_wotd_processing_for_month_def page_exists_cases page_get_text_cases
                section_loop_month_Suc opened_def Let_def)
      next
        case False
        with ok Some read show ?thesis using that(5) [of p]
          by (simp add: run_wotd_processing_for_month_def page_exists_cases page_get_text_cases
                section_loop_month_Suc opened_def finished_def Let_def)
      qed
    qed
  qed
qed

lemma opened_simps [simp]:
  "calls (opened y m x w)
     = calls w @ [Exists (source_page_title y m), GetText (source_page_title y m)]"
  "pages (opened y m x w) = pages w"
  "writes (opened y m x w) = writes w"
  by (simp_all add: opened_def writes_def)

lemma month_tasks_fields:
  assumes "t \<in> set (month_tasks st y m dr x)"
  shows "dry_run t = dr" and "year t = y" and "month_name t = m"
    and "create_summary t = mk_create_summary y m"
  using assms by (auto simp: month_tasks_def mk_task_def)

lemma finished_calls:
  "\<exists>xs. calls (finished ev st y m dr x w)
          = calls w @ [Exists (source_page_title y m), GetText (source_page_title y m)] @ xs
        \<and> filter is_exists xs
            = map (\<lambda>t. Exists (target_page_title t)) (month_tasks st y m dr x)
        \<and> set xs \<subseteq> (\<Union>t \<in> set (month_tasks st y m dr x). day_calls t)"
proof -
  let ?w = "say Output (nl @ ''Starting processing for ''
                       @ str_nat (length (month_tasks st y m dr x))
                       @ '' days in '' @ m @ '' '' @ str_int y @ '' using ''
                       @ str_nat (length (month_tasks st y m dr x)) @ '' threads...'')
             (opened y m x w)"
  from dispatch_calls [of ev 0 "month_tasks st y m dr x" ?w]
  show ?thesis by (auto simp: finished_def)
qed

lemma finished_dry:
  "writes (finished ev st y m True x w) = writes w"
  "pages (finished ev st y m True x w) = pages w"
  using dispatch_dry [of "month_tasks st y m True x" ev 0]
  by (simp_all add: finished_def month_tasks_fields)

lemma archive_step_calls:
  "calls (archive_step ev y m dr sk w)
     = calls w @ (if sk \<or> dr then []
                  else [Save (source_page_title y m) (new_content y) (mk_archive_summary y m)])"
  by (simp add: archive_step_def page_save_cases split: option.split)

lemma archive_step_dry:
  "writes (archive_step ev y m True sk w) = writes w"
  "pages (archive_step ev y m True sk w) = pages w"
  by (simp_all add: archive_step_def)

lemma archive_step_stores:
  assumes "\<not> sk" and "\<not> dr"
      and "faults ev (length (calls w))
             (Save (source_page_title y m) (new_content y) (mk_archive_summary y m)) = None"
  shows "map_option page_text (pages (archive_step ev y m dr sk w) (source_page_title y m))
           = Some (new_content y)"
  using assms
  by (simp add: archive_step_def page_save_cases store_text_def split: option.split)

lemma run_month_dry:
  "writes (snd (run_wotd_processing_for_month ev st y m True w)) = writes w"
  "pages (snd (run_wotd_processing_for_month ev st y m True w)) = pages w"
  by (cases rule: run_month_cases [of ev w y m st True];
      simp add: writes_def archive_step_dry finished_dry [unfolded writes_def]
                archive_step_dry [unfolded writes_def] opened_def)+

lemma month_tasks_empty: "(month_tasks st y m dr x = []) = (\<not> has_valid x)"
  by (auto simp: month_tasks_def has_valid_def filter_empty_conv)

lemma summaries_differ: "mk_create_summary y m \<noteq> mk_archive_summary y' m'"
  by (simp add: mk_create_summary_def mk_archive_summary_def)

lemma archive_save_not_day_call:
  assumes "t \<in> set (month_tasks st y m dr x)"
  shows "archive_save y' m' \<notin> day_calls t"
  using month_tasks_fields(4) [OF assms] summaries_differ [of y m y' m']
  by (auto simp: day_calls_def archive_save_def)

lemma run_month_archive_gate:
  assumes "faults ev (length (calls w)) (Exists (source_page_title y m)) = None"
      and "pages w (source_page_title y m) = Some p"
      and "faults ev (Suc (length (calls w))) (GetText (source_page_title y m)) = None"
  shows "(archive_save y m
            \<in> set (new_calls w (snd (run_wotd_processing_for_month ev st y m False w))))
         = (has_valid (page_text p) \<and> \<not> has_invalid (page_text p))"
proof (cases rule: run_month_cases [of ev w y m st False])
  case (exists_failed r)
  with assms show ?thesis by simp
next
  case missing
  with assms show ?thesis by simp
next
  case (read_failed r p')
  with assms show ?thesis by simp
next
  case (no_tasks p')
  with assms have "p' = p" by simp
  with no_tasks show ?thesis
    by (simp add: new_calls_def month_tasks_empty archive_save_def)
next
  case (dispatched p')
  with assms have p: "p' = p" by simp
  obtain xs where xs:
    "calls (finished ev st y m False (page_text p) w)
       = calls w @ [Exists (source_page_title y m), GetText (source_page_title y m)] @ xs"
    "set xs \<subseteq> (\<Union>t \<in> set (month_tasks st y m False (page_text p)). day_calls t)"
    using finished_calls [of ev st y m False "page_text p" w] by blast
  have "archive_save y m \<notin> set xs"
    using xs(2) archive_save_not_day_call [of _ st y m False "page_text p" y m] by blast
  with dispatched p xs(1) show ?thesis
    by (auto simp: new_calls_def archive_step_calls month_tasks_empty archive_save_def)
qed

lemma run_month_archive_stored:
  assumes "faults ev (length (calls w)) (Exists (source_page_title y m)) = None"
      and "pages w (source_page_title y m) = Some p"
      and "faults ev (Suc (length (calls w))) (GetText (source_page_title y m)) = None"
      and "has_valid (page_text p)" and "\<not> has_invalid (page_text p)"
      and "faults ev (length (calls (snd (run_wotd_processing_for_month ev st y m False w))) - 1)
             (archive_save y m) = None"
  shows "map_option page_text
           (pages (snd (run_wotd_processing_for_month ev st y m False w)) (source_page_title y m))
         = Some (new_content y)"
proof (cases rule: run_month_cases [of ev w y m st False])
  case (exists_failed r)
  with assms show ?thesis by simp
next
  case missing
  with assms show ?thesis by simp
next
  case (read_failed r p')
  with assms show ?thesis by simp
next
  case (no_tasks p')
  with assms show ?thesis by (simp add: month_tasks_empty)
next
  case (dispatched p')
  with assms have p: "p' = p" by simp
  from assms(6) dispatched(5) assms(5) p
  have "faults ev (length (calls (finished ev st y m False (page_text p) w)))
          (archive_save y m) = None"
    by (simp add: archive_step_calls)
  then show ?thesis
    using dispatched(5) assms(5) p
    by (simp add: archive_step_stores [unfolded archive_save_def [symmetric]] archive_save_def)
qed



lemma month_tasks_titles:
  assumes "t \<in> set (month_tasks st y m dr x)"
  shows "target_page_title t
           = ''Wiktionary:Word of the day/'' @ str_int y @ ''/'' @ m @ '' '' @ day t"
  using month_tasks_fields(2,3) [OF assms] by (simp add: target_page_title_def)

lemma month_tasks_days:
  "t \<in> set (month_tasks st y m dr x) \<Longrightarrow> \<exists>c. (day t, c) \<in> set (split_pairs x)"
  by (auto simp: month_tasks_def mk_task_def)

section \<open>Properties of the calendar driver\<close>








lemma later_asym: "later a b \<Longrightarrow> \<not> later b a"
  by (auto simp: later_def)





section \<open>Facts about the concrete inputs\<close>

lemma split_pairs_month_text_1:
  "split_pairs month_text_1 = [(''1'', ''{{WotD|a}}''), (''2'', ''x''), (''3'', [])]"
  by code_simp

lemma validity_month_text_1:
  "valid ''{{WotD|a}}''" "\<not> invalid ''{{WotD|a}}''" "\<not> valid ''x''" "invalid ''x''"
  "\<not> valid []" "\<not> invalid []"
  by code_simp+

lemma live_task_1: "\<not> dry_run task_1"
  by (simp add: task_1_def mk_task_def)



lemma first_run:
  "exists_in (snd (process_one_day no_faults ''worker'' task_1 empty_wiki))
     (target_page_title task_1)"
  "edit_level (snd (process_one_day no_faults ''worker'' task_1 empty_wiki))
     (target_page_title task_1) = Some ''sysop''"
  by (rule fresh_page_protected; simp add: no_faults_def empty_wiki_def live_task_1)+

lemma split_pairs_hello: "split_pairs ''hello'' = []"
  by code_simp

lemma split_pairs_month_text_2:
  "split_pairs month_text_2 = [(''1'', ''{{wotd|a}}''), (''2'', [])]"
  by code_simp


lemma validity_more:
  "valid ''{{wotd|a}}''" "\<not> invalid ''{{wotd|a}}''" "valid ''{{wotd|b}}''"
  by code_simp+

lemma month_wiki_simps [simp]:
  "pages (month_wiki x) (source_page_title 2006 ''January'')
     = Some \<lparr>page_text = x, protection = Map.empty\<rparr>"
  "calls (month_wiki x) = []"
  by (simp_all add: month_wiki_def)


lemma split_pairs_month_text_4: "split_pairs month_text_4 = [(''01'', ''{{wotd|a}}'')]"
  by code_simp

lemma str_int_2006: "str_int 2006 = ''2006''"
  by code_simp


section \<open>The claims\<close>

text \<open>
  C1. Claimed: when \<^verbatim>\<open>-live\<close> is absent from the arguments, the dry-run flag passed to
  the month orchestrator is true. The code at the argument list \<^verbatim>\<open>['wotd.py']\<close>: the flag
  is \<^verbatim>\<open>DEFAULT_DRY_RUN\<close>, which is \<^verbatim>\<open>False\<close>, while the line printed announces the
  dry-run mode.
\<close>

theorem C1_flag_without_live:
  "is_dry_run [''wotd.py''] = False
   \<and> mode_banner [''wotd.py'']
       = nl @ ''*** DRY RUN MODE: No edits will be made. Use -live argument to save. ***'' @ nl"
  by (simp add: is_dry_run_def mode_banner_def DEFAULT_DRY_RUN_def)

text \<open>
  C2 (as stated: the rewrite happens exactly when every pair is valid). A month text
  without headings has no pair at all, so every pair is valid and none is invalid, and
  the source page is not rewritten.
\<close>

theorem C2_archive_gate_counterexample:
  "\<not> ((archive_save 2006 ''January''
         \<in> set (new_calls (month_wiki ''hello'')
                  (snd (run_wotd_processing_for_month no_faults ''en'' 2006 ''January'' False
                          (month_wiki ''hello'')))))
       = all_valid ''hello'')
   \<and> \<not> ((archive_save 2006 ''January''
           \<in> set (new_calls (month_wiki ''hello'')
                    (snd (run_wotd_processing_for_month no_faults ''en'' 2006 ''January'' False
                            (month_wiki ''hello'')))))
         = (\<not> has_invalid ''hello''))"
  using run_month_archive_gate [of no_faults "month_wiki ''hello''" 2006 "''January''"
          "\<lparr>page_text = ''hello'', protection = Map.empty\<rparr>" "''en''"]
  by (simp add: no_faults_def has_valid_def all_valid_def has_invalid_def split_pairs_hello)

text \<open>
  C2 (amended). In live mode, for a source page that exists and is read without error:
  the save that archives the source page is made if and only if the month text has at
  least one valid pair and no invalid pair, whatever the backend does to the day pages;
  when that save does not raise, the text of the source page is the archive-template
  invocation.
\<close>

theorem C2_archive_gate:
  assumes "faults ev (length (calls w)) (Exists (source_page_title y m)) = None"
      and "pages w (source_page_title y m) = Some p"
      and "faults ev (Suc (length (calls w))) (GetText (source_page_title y m)) = None"
      and "w' = snd (run_wotd_processing_for_month ev st y m False w)"
  shows "((archive_save y m \<in> set (new_calls w w'))
          = (has_valid (page_text p) \<and> \<not> has_invalid (page_text p)))
         \<and> (has_valid (page_text p) \<and> \<not> has_invalid (page_text p)
            \<and> faults ev (length (calls w') - 1) (archive_save y m) = None \<longrightarrow>
            map_option page_text (pages w' (source_page_title y m)) = Some (new_content y))"
  using run_month_archive_gate [OF assms(1-3), of st]
        run_month_archive_stored [OF assms(1-3), of st]
  unfolding assms(4) by blast

theorem C2_archive_gate_witness:
  "archive_save 2006 ''January''
     \<in> set (new_calls (month_wiki month_text_2)
              (snd (run_wotd_processing_for_month protect_fails ''en'' 2006 ''January'' False
                      (month_wiki month_text_2))))
   \<and> map_option page_text
        (pages (snd (run_wotd_processing_for_month protect_fails ''en'' 2006 ''January'' False
                       (month_wiki month_text_2)))
           (source_page_title 2006 ''January'')) = Some (new_content 2006)
   \<and> archive_save 2006 ''January''
     \<notin> set (new_calls (month_wiki month_text_1)
              (snd (run_wotd_processing_for_month protect_fails ''en'' 2006 ''January'' False
                      (month_wiki month_text_1))))"
  using C2_archive_gate [of protect_fails "month_wiki month_text_2" 2006 "''January''"
          "\<lparr>page_text = month_text_2, protection = Map.empty\<rparr>" _ "''en''", OF _ _ _ refl]
        C2_archive_gate [of protect_fails "month_wiki month_text_1" 2006 "''January''"
          "\<lparr>page_text = month_text_1, protection = Map.empty\<rparr>" _ "''en''", OF _ _ _ refl]
  by (simp add: protect_fails_def has_valid_def has_invalid_def split_pairs_month_text_2
        split_pairs_month_text_1 validity_more validity_month_text_1 archive_save_def)

text \<open>
  C3. With the dry-run flag set, the day processor makes no save and no protect call and
  changes no page, and the month orchestrator makes no save or protect call either (in
  the day processors it runs or on the source page) and changes no page; for every wiki,
  every task and every behaviour of the backend.
\<close>

theorem C3_dry_run_writes_nothing:
  "writes (snd (process_one_day ev th (t\<lparr>dry_run := True\<rparr>) w)) = writes w
   \<and> pages (snd (process_one_day ev th (t\<lparr>dry_run := True\<rparr>) w)) = pages w
   \<and> writes (snd (run_wotd_processing_for_month ev st y m True w)) = writes w
   \<and> pages (snd (run_wotd_processing_for_month ev st y m True w)) = pages w"
  by (simp add: process_one_day_dry run_month_dry)

theorem C3_dry_run_writes_nothing_witness:
  "writes (snd (process_one_day no_faults ''worker'' (task_1\<lparr>dry_run := True\<rparr>) empty_wiki)) = []
   \<and> writes (snd (run_wotd_processing_for_month no_faults ''en'' 2006 ''January'' True
                  (month_wiki month_text_2))) = []
   \<and> pages (snd (run_wotd_processing_for_month no_faults ''en'' 2006 ''January'' True
                  (month_wiki month_text_2))) = pages (month_wiki month_text_2)"
  using C3_dry_run_writes_nothing [of no_faults "''worker''" task_1 empty_wiki "''en''" 2006
          "''January''"]
        C3_dry_run_writes_nothing [of no_faults "''worker''" task_1 "month_wiki month_text_2"
          "''en''" 2006 "''January''"]
  by (simp add: writes_def empty_wiki_def)

text \<open>
  C4. For every month text, the loop over the splitter's pairs builds a task for exactly
  the valid pairs (trimmed content non-empty and containing \<^verbatim>\<open>{{wotd\<close> in any letter case),
  in order; it sets the skipped flag exactly when some pair is invalid (non-empty, without
  the marker), with one warning per invalid pair; a pair with empty trimmed content gives
  no task, no warning and does not set the flag.
\<close>

theorem C4_validity_of_pairs:
  "section_loop st y m dr (drop 1 (re_split wikitext)) [] False w =
     (Inr (map (\<lambda>(d, c). mk_task st y m dr d c)
             (filter (\<lambda>(d, c). valid c) (split_pairs wikitext)),
           \<exists>(d, c) \<in> set (split_pairs wikitext). invalid c),
      w\<lparr>console := console w
           @ map (\<lambda>(d, c). skip_warning d)
               (filter (\<lambda>(d, c). invalid c) (split_pairs wikitext))\<rparr>)"
  unfolding split_pairs_def
  using section_loop_pairs [OF sections_even, of st y m dr wikitext "[]" False w] by simp

theorem C4_validity_of_pairs_witness:
  "section_loop ''en'' 2006 ''January'' False (drop 1 (re_split month_text_1)) [] False
       empty_wiki =
     (Inr ([mk_task ''en'' 2006 ''January'' False ''1'' ''{{WotD|a}}''], True),
      empty_wiki\<lparr>console := [skip_warning ''2'']\<rparr>)"
  using C4_validity_of_pairs [of "''en''" 2006 "''January''" False month_text_1 empty_wiki]
  unfolding split_pairs_month_text_1
  by (simp add: validity_month_text_1 empty_wiki_def)

text \<open>
  C5. Idempotence of the day processor in live mode: when, after a first run, the target
  page exists and its edit protection is at the level \<^verbatim>\<open>sysop\<close>, a second run of the same
  task makes no save and no protect call and leaves every page as it is, whatever the
  backend does.
\<close>

theorem C5_second_run_writes_nothing:
  assumes "\<not> dry_run t"
      and "w1 = snd (process_one_day ev th t w)"
      and "exists_in w1 (target_page_title t)"
      and "edit_level w1 (target_page_title t) = Some ''sysop''"
  shows "writes (snd (process_one_day ev th' t w1)) = writes w1
         \<and> pages (snd (process_one_day ev th' t w1)) = pages w1"
  using assms(3,4) by (simp add: process_one_day_protected_already)

theorem C5_second_run_writes_nothing_witness:
  "\<not> dry_run task_1
   \<and> exists_in (snd (process_one_day no_faults ''worker'' task_1 empty_wiki))
        (target_page_title task_1)
   \<and> edit_level (snd (process_one_day no_faults ''worker'' task_1 empty_wiki))
        (target_page_title task_1) = Some ''sysop''
   \<and> writes (snd (process_one_day no_faults ''worker''  task_1
                  (snd (process_one_day no_faults ''worker'' task_1 empty_wiki))))
       = writes (snd (process_one_day no_faults ''worker'' task_1 empty_wiki))"
proof -
  have live: "\<not> dry_run task_1" by (simp add: task_1_def mk_task_def)
  from C5_second_run_writes_nothing [OF live refl first_run, of "''worker''"] live first_run
  show ?thesis by simp
qed





text \<open>
  C8 (as stated: the day in the title is an unpadded numeral, a heading for day 1 never
  gives a title ending in 01). The month text with the heading \<^verbatim>\<open>==01==\<close> gives one task,
  and its title ends in \<^verbatim>\<open>January 01\<close>.
\<close>

theorem C8_page_titles_counterexample:
  "fst (section_loop ''en'' 2006 ''January'' False (drop 1 (re_split month_text_4)) [] False
          empty_wiki)
     = Inr ([mk_task ''en'' 2006 ''January'' False ''01'' ''{{wotd|a}}''], False)
   \<and> target_page_title (mk_task ''en'' 2006 ''January'' False ''01'' ''{{wotd|a}}'')
       = ''Wiktionary:Word of the day/2006/January 01''"
  by (simp add: section_loop_month_Suc month_tasks_def has_invalid_def split_pairs_month_text_4
        validity_more target_page_title_def mk_task_def str_int_2006)

text \<open>
  C8 (amended). For every task built from a month text, the target page title is the
  fixed prefix, the year, the month name and the day, where the day is the digit string
  of a heading of the month text exactly as it is written there (not empty, digits only,
  leading zeros kept); the title of the source archive page is the fixed prefix,
  \<^verbatim>\<open>Archive\<close>, the year and the month name.
\<close>

theorem C8_page_titles:
  assumes "fst (section_loop st y m dr (drop 1 (re_split wikitext)) [] False w)
             = Inr (tasks, sk)"
      and "t \<in> set tasks"
  shows "target_page_title t
           = ''Wiktionary:Word of the day/'' @ str_int y @ ''/'' @ m @ '' '' @ day t
         \<and> day t \<noteq> [] \<and> (\<forall>c \<in> set (day t). is_digit c) \<and> heading_for (day t) wikitext
         \<and> source_page_title y m
             = ''Wiktionary:Word of the day/Archive/'' @ str_int y @ ''/'' @ m"
proof -
  from assms have t: "t \<in> set (month_tasks st y m dr wikitext)"
    by (simp add: section_loop_month_Suc)
  then obtain c where "(day t, c) \<in> set (split_pairs wikitext)"
    using month_tasks_days by blast
  from split_pairs_days [OF this] month_tasks_titles [OF t]
  show ?thesis by (simp add: source_page_title_def)
qed

theorem C8_page_titles_witness:
  "fst (section_loop ''en'' 2006 ''January'' False (drop 1 (re_split month_text_1)) [] False
          empty_wiki)
     = Inr ([mk_task ''en'' 2006 ''January'' False ''1'' ''{{WotD|a}}''], True)
   \<and> target_page_title (mk_task ''en'' 2006 ''January'' False ''1'' ''{{WotD|a}}'')
       = ''Wiktionary:Word of the day/2006/January 1''
   \<and> heading_for ''1'' month_text_1
   \<and> source_page_title 2006 ''January'' = ''Wiktionary:Word of the day/Archive/2006/January''"
proof -
  have run: "fst (section_loop ''en'' 2006 ''January'' False (drop 1 (re_split month_text_1)) []
                    False empty_wiki)
               = Inr ([mk_task ''en'' 2006 ''January'' False ''1'' ''{{WotD|a}}''], True)"
    by (simp add: section_loop_month_Suc month_tasks_def has_invalid_def split_pairs_month_text_1
          validity_month_text_1)
  from C8_page_titles [OF run, of "mk_task ''en'' 2006 ''January'' False ''1'' ''{{WotD|a}}''"]
  show ?thesis using run by (simp add: mk_task_def str_int_2006)
qed





end
